theory Spec2Isabelle
  imports Main "HOL-Library.Sublist"
begin

section \<open>The schema installer script \<^verbatim>\<open>install-schema.py\<close>\<close>

text \<open>
  The script builds a GraphQL mutation from a template and a schema file, POSTs it to
  the admin endpoint in a first loop that tolerates refused connections, decodes the
  response, re-POSTs in a second loop while the decoded message holds an
  \<^verbatim>\<open>"errors"\<close> entry, and prints the last response.
\<close>

subsection \<open>Building the mutation string\<close>

text \<open>
  Python's \<^verbatim>\<open>s.replace(old, new)\<close>: the non-overlapping occurrences of \<open>old\<close> are
  replaced from left to right; the text put in is not scanned again. An empty \<open>old\<close>
  matches before every character and at the end.
\<close>

function replace_from :: "string \<Rightarrow> string \<Rightarrow> string \<Rightarrow> string" where
  "replace_from old new [] = []"
| "replace_from old new (c # cs) =
     (if old \<noteq> [] \<and> prefix old (c # cs)
      then new @ replace_from old new (drop (length old) (c # cs))
      else c # replace_from old new cs)"
  by pat_completeness auto
termination
  by (relation "measure (\<lambda>(old, new, s). length s)") (auto simp: Suc_le_eq intro: diff_less)

definition str_replace :: "string \<Rightarrow> string \<Rightarrow> string \<Rightarrow> string" where
  "str_replace old new s =
     (if old = [] then new @ concat (map (\<lambda>c. c # new) s) else replace_from old new s)"

text \<open>The literal the script starts from (lines 6 to 16).\<close>

definition template :: string where
  \<open>template =
     ''mutation {'' @ [CHR 0x0A] @
     ''  updateGQLSchema('' @ [CHR 0x0A] @
     ''    input: { set: { schema: "$my_schema"}})'' @ [CHR 0x0A] @
     ''  {'' @ [CHR 0x0A] @
     ''    gqlSchema {'' @ [CHR 0x0A] @
     ''      schema'' @ [CHR 0x0A] @
     ''      generatedSchema'' @ [CHR 0x0A] @
     ''    }'' @ [CHR 0x0A] @
     ''  }'' @ [CHR 0x0A] @
     ''}'' @ [CHR 0x0A]\<close>

text \<open>The chain of four replacements of line 22.\<close>

definition collapse_whitespace :: "string \<Rightarrow> string" where
  "collapse_whitespace s =
     str_replace ''  '' '' ''
       (str_replace [CHR 0x09] '' ''
         (str_replace ''  '' '' ''
           (str_replace [CHR 0x0A] [] s)))"

text \<open>Lines 21 and 22: substitute the schema, then collapse.\<close>

definition buildMutation :: "string \<Rightarrow> string" where
  "buildMutation schema = collapse_whitespace (str_replace ''$my_schema'' schema template)"



subsection \<open>The endpoint, responses and the script's observable actions\<close>

text \<open>
  A decoded JSON body, as \<^verbatim>\<open>r.json()\<close> returns it.
\<close>

datatype json =
    JNull
  | JBool bool
  | JNum int
  | JStr string
  | JArr "json list"
  | JObj "(string \<times> json) list"

text \<open>
  A response object: its status code and its body decoded as JSON, \<open>None\<close> when the
  body is not valid JSON (then \<^verbatim>\<open>r.json()\<close> raises).
\<close>

record response =
  status_code :: nat
  decoded :: "json option"

text \<open>
  What one call of \<^verbatim>\<open>requests.post\<close> does: it returns a response, raises
  \<^verbatim>\<open>requests.exceptions.ConnectionError\<close>, or raises some other exception.
\<close>

datatype outcome = Replied response | Refused | Failed

text \<open>
  The endpoint as the script meets it during one run: the outcome of the POST number
  \<open>k\<close> of the run, counted from 0.
\<close>

type_synonym endpoint = "nat \<Rightarrow> outcome"

datatype error =
    FileError
  | NameError
  | ConnectionError
  | RequestError
  | JSONDecodeError
  | TypeError

datatype event =
    Post string
  | Sleep nat
  | Print string
  | PrintResponse response
  | PrintJson json

text \<open>
  The script's variables (\<open>r\<close> and \<open>message\<close> are unbound until first assigned), the
  number of POSTs issued so far and the actions performed so far, oldest first.
\<close>

record state =
  mutation :: string
  r :: "response option"
  message :: "json option"
  posts :: nat
  trace :: "event list"

type_synonym result = "(error \<times> state) + state"

text \<open>Python's \<^verbatim>\<open>str(i)\<close> for a non-negative integer.\<close>

function str_nat :: "nat \<Rightarrow> string" where
  "str_nat n =
     (if n < 10 then [''0123456789'' ! n]
      else str_nat (n div 10) @ [''0123456789'' ! (n mod 10)])"
  by pat_completeness auto
termination
  by (relation "measure (\<lambda>n. n)") auto

declare str_nat.simps [simp del]

text \<open>Python's \<^verbatim>\<open>k in message\<close> for a string \<open>k\<close> and a decoded JSON value.\<close>

fun py_in :: "string \<Rightarrow> json \<Rightarrow> error + bool" where
  "py_in k (JObj kvs) = Inr (k \<in> set (map fst kvs))"
| "py_in k (JArr xs) = Inr (JStr k \<in> set xs)"
| "py_in k (JStr s) = Inr (sublist k s)"
| "py_in k JNull = Inl TypeError"
| "py_in k (JBool b) = Inl TypeError"
| "py_in k (JNum n) = Inl TypeError"

text \<open>\<^verbatim>\<open>requests.post('http://localhost:8080/admin', json={"query": mutation})\<close>\<close>

definition post :: "endpoint \<Rightarrow> state \<Rightarrow> state \<times> outcome" where
  "post env s =
     (s\<lparr>posts := posts s + 1, trace := trace s @ [Post (mutation s)]\<rparr>, env (posts s))"

text \<open>\<^verbatim>\<open>for i in range(...)\<close>: the body runs for each index in turn; an exception leaves the loop.\<close>

fun for_range :: "nat list \<Rightarrow> (nat \<Rightarrow> state \<Rightarrow> result) \<Rightarrow> state \<Rightarrow> result" where
  "for_range [] body s = Inr s"
| "for_range (i # is) body s =
     (case body i s of Inl e \<Rightarrow> Inl e | Inr s' \<Rightarrow> for_range is body s')"

text \<open>The body of the first loop: try the POST; on a connection error sleep and print.\<close>

definition connection_body :: "endpoint \<Rightarrow> nat \<Rightarrow> state \<Rightarrow> result" where
  "connection_body env i s =
     (case post env s of
        (s', Replied resp) \<Rightarrow> Inr (s'\<lparr>r := Some resp\<rparr>)
      | (s', Refused) \<Rightarrow>
          Inr (s'\<lparr>trace := trace s' @ [Sleep 1, Print ''Waiting for connection'']\<rparr>)
      | (s', Failed) \<Rightarrow> Inl (RequestError, s'))"

definition connection_loop :: "endpoint \<Rightarrow> state \<Rightarrow> result" where
  "connection_loop env s = for_range [0..<15] (connection_body env) s"

text \<open>\<^verbatim>\<open>message = r.json()\<close>\<close>

definition read_message :: "state \<Rightarrow> result" where
  "read_message s =
     (case r s of
        None \<Rightarrow> Inl (NameError, s)
      | Some resp \<Rightarrow>
          (case decoded resp of
             None \<Rightarrow> Inl (JSONDecodeError, s)
           | Some j \<Rightarrow> Inr (s\<lparr>message := Some j\<rparr>)))"

text \<open>The body of the second loop.\<close>

definition polling_body :: "endpoint \<Rightarrow> nat \<Rightarrow> state \<Rightarrow> result" where
  "polling_body env i s =
     (case message s of
        None \<Rightarrow> Inl (NameError, s)
      | Some m \<Rightarrow>
          (case py_in ''errors'' m of
             Inl e \<Rightarrow> Inl (e, s)
           | Inr False \<Rightarrow> Inr s
           | Inr True \<Rightarrow>
               (case post env s of
                  (s', Replied resp) \<Rightarrow>
                    Inr (s'\<lparr>r := Some resp,
                            trace := trace s' @
                              [Print (''Waiting for db to be ready ... '' @ str_nat i), Sleep 3]\<rparr>)
                | (s', Refused) \<Rightarrow> Inl (ConnectionError, s')
                | (s', Failed) \<Rightarrow> Inl (RequestError, s'))))"

definition polling_loop :: "endpoint \<Rightarrow> state \<Rightarrow> result" where
  "polling_loop env s = for_range [0..<15] (polling_body env) s"

text \<open>\<^verbatim>\<open>print(r)\<close> and \<^verbatim>\<open>print(r.json())\<close>\<close>

definition report :: "state \<Rightarrow> result" where
  "report s =
     (case r s of
        None \<Rightarrow> Inl (NameError, s)
      | Some resp \<Rightarrow>
          (let s' = s\<lparr>trace := trace s @ [PrintResponse resp]\<rparr> in
           case decoded resp of
             None \<Rightarrow> Inl (JSONDecodeError, s')
           | Some j \<Rightarrow> Inr (s'\<lparr>trace := trace s' @ [PrintJson j]\<rparr>)))"

definition bind_result :: "result \<Rightarrow> (state \<Rightarrow> result) \<Rightarrow> result" where
  "bind_result x f = (case x of Inl e \<Rightarrow> Inl e | Inr s \<Rightarrow> f s)"

text \<open>
  The state after the mutation is built and printed, before the first POST.
\<close>

definition start :: "string \<Rightarrow> state" where
  "start schema =
     \<lparr>mutation = buildMutation schema, r = None, message = None, posts = 0,
      trace = [Print (buildMutation schema)]\<rparr>"

text \<open>
  The whole script, given the contents of \<^verbatim>\<open>cardano-schema.gql\<close> (\<open>None\<close> when the
  file cannot be opened or read) and the endpoint.
\<close>

definition run :: "endpoint \<Rightarrow> string option \<Rightarrow> result" where
  "run env file =
     (case file of
        None \<Rightarrow>
          Inl (FileError, \<lparr>mutation = template, r = None, message = None, posts = 0, trace = []\<rparr>)
      | Some schema \<Rightarrow>
          bind_result (connection_loop env (start schema)) (\<lambda>s1.
          bind_result (read_message s1) (\<lambda>s2.
          bind_result (polling_loop env s2) report)))"

subsection \<open>Auxiliary notions used in the statements\<close>

text \<open>One pass of \<^verbatim>\<open>.replace('  ', ' ')\<close>.\<close>

definition squeeze :: "string \<Rightarrow> string" where
  "squeeze s = str_replace ''  '' '' '' s"


text \<open>
  The response that \<open>r\<close> is bound to by the POSTs number \<open>k\<close> to \<open>k + n - 1\<close> when each
  reply is assigned to it: the latest reply among them, if any.
\<close>

fun last_reply :: "endpoint \<Rightarrow> nat \<Rightarrow> nat \<Rightarrow> response option" where
  "last_reply env k 0 = None"
| "last_reply env k (Suc n) =
     (case env (k + n) of Replied x \<Rightarrow> Some x | Refused \<Rightarrow> last_reply env k n
      | Failed \<Rightarrow> last_reply env k n)"

text \<open>The actions of one pass through the first loop, by the outcome of its POST.\<close>

fun attempt_events :: "string \<Rightarrow> outcome \<Rightarrow> event list" where
  "attempt_events m (Replied x) = [Post m]"
| "attempt_events m Refused = [Post m, Sleep 1, Print ''Waiting for connection'']"
| "attempt_events m Failed = [Post m]"

text \<open>The actions of pass \<open>i\<close> through the second loop when it re-POSTs and gets a reply.\<close>

definition poll_events :: "string \<Rightarrow> nat \<Rightarrow> event list" where
  "poll_events m i = [Post m, Print (''Waiting for db to be ready ... '' @ str_nat i), Sleep 3]"

fun is_sleep :: "event \<Rightarrow> bool" where
  "is_sleep (Sleep n) = True"
| "is_sleep (Post m) = False"
| "is_sleep (Print t) = False"
| "is_sleep (PrintResponse x) = False"
| "is_sleep (PrintJson j) = False"

fun is_report :: "event \<Rightarrow> bool" where
  "is_report (PrintResponse x) = True"
| "is_report (PrintJson j) = True"
| "is_report (Post m) = False"
| "is_report (Sleep n) = False"
| "is_report (Print t) = False"

text \<open>A response whose body decodes to a JSON object with an \<^verbatim>\<open>"errors"\<close> key.\<close>

fun has_errors_key :: "response \<Rightarrow> bool" where
  "has_errors_key x =
     (case decoded x of
        Some (JObj kvs) \<Rightarrow> ''errors'' \<in> set (map fst kvs)
      | _ \<Rightarrow> False)"

text \<open>The actions performed by a run, whether it ended normally or with an exception.\<close>

definition actions :: "result \<Rightarrow> event list" where
  "actions x = (case x of Inl (e, s) \<Rightarrow> trace s | Inr s \<Rightarrow> trace s)"

text \<open>Two bodies the endpoint may send, and the responses carrying them.\<close>

definition clean_body :: json where
  "clean_body =
     JObj [(''gqlSchema'', JObj [(''schema'', JStr ''type T''), (''generatedSchema'', JStr ''type T'')])]"

definition error_body :: json where
  "error_body = JObj [(''errors'', JArr [JObj [(''message'', JStr ''not ready'')]])]"

definition clean_response :: response where
  "clean_response = \<lparr>status_code = 200, decoded = Some clean_body\<rparr>"

definition error_response :: response where
  "error_response = \<lparr>status_code = 200, decoded = Some error_body\<rparr>"

section \<open>Properties of the mutation string\<close>

lemma replace_from_single:
  "replace_from [a] new s = concat (map (\<lambda>c. if c = a then new else [c]) s)"
  by (induction s) auto

lemma replace_newline_filter:
  "str_replace [CHR 0x0A] [] s = filter (\<lambda>c. c \<noteq> CHR 0x0A) s"
  unfolding str_replace_def replace_from_single by (induction s) simp_all

lemma replace_tab_map:
  "str_replace [CHR 0x09] '' '' s = map (\<lambda>c. if c = CHR 0x09 then CHR '' '' else c) s"
  unfolding str_replace_def replace_from_single by (induction s) simp_all

lemma squeeze_simps:
  "squeeze [] = []"
  "squeeze [c] = [c]"
  "squeeze (c # d # cs) =
     (if c = CHR '' '' \<and> d = CHR '' '' then CHR '' '' # squeeze cs else c # squeeze (d # cs))"
  by (auto simp: squeeze_def str_replace_def)

lemma squeeze_last: "s \<noteq> [] \<Longrightarrow> squeeze s \<noteq> [] \<and> last (squeeze s) = last s"
  by (induction s rule: induct_list012) (auto simp: squeeze_simps)

lemma squeeze_hd: "s \<noteq> [] \<Longrightarrow> hd (squeeze s) = hd s"
  by (induction s rule: induct_list012) (auto simp: squeeze_simps)

lemma squeeze_append_left:
  "xs = [] \<or> last xs \<noteq> CHR '' '' \<Longrightarrow> squeeze (xs @ ys) = squeeze xs @ squeeze ys"
proof (induction xs rule: induct_list012)
  case 1
  show ?case by (simp add: squeeze_simps)
next
  case (2 x)
  then show ?case by (cases ys) (simp_all add: squeeze_simps)
next
  case (3 x y zs)
  then show ?case by (cases zs) (auto simp: squeeze_simps)
qed

lemma squeeze_append_right:
  "ys = [] \<or> hd ys \<noteq> CHR '' '' \<Longrightarrow> squeeze (xs @ ys) = squeeze xs @ squeeze ys"
proof (induction xs rule: induct_list012)
  case 1
  show ?case by (simp add: squeeze_simps)
next
  case (2 x)
  then show ?case by (cases ys) (auto simp: squeeze_simps)
next
  case (3 x y zs)
  then show ?case by (auto simp: squeeze_simps)
qed

lemma squeeze_clean: "\<not> sublist ''  '' s \<Longrightarrow> squeeze s = s"
proof (induction s rule: induct_list012)
  case 1
  show ?case by (simp add: squeeze_simps)
next
  case (2 x)
  show ?case by (simp add: squeeze_simps)
next
  case (3 x y zs)
  from 3 show ?case
    by (auto simp: squeeze_simps sublist_Cons_right)
qed


lemma squeeze_set: "set (squeeze s) \<subseteq> set s"
  by (induction s rule: induct_list012) (auto simp: squeeze_simps)

lemma squeeze_length: "length (squeeze s) \<le> length s"
  by (induction s rule: induct_list012) (auto simp: squeeze_simps)

lemma collapse_alt:
  "collapse_whitespace s =
     squeeze (map (\<lambda>c. if c = CHR 0x09 then CHR '' '' else c)
       (squeeze (filter (\<lambda>c. c \<noteq> CHR 0x0A) s)))"
  by (simp add: collapse_whitespace_def replace_newline_filter replace_tab_map squeeze_def)

lemma collapse_append_left:
  assumes "xs \<noteq> []" "last xs \<noteq> CHR '' ''" "last xs \<noteq> CHR 0x09" "last xs \<noteq> CHR 0x0A"
  shows "collapse_whitespace (xs @ ys) = collapse_whitespace xs @ collapse_whitespace ys"
proof -
  let ?f = "filter (\<lambda>c. c \<noteq> CHR 0x0A)"
  let ?m = "map (\<lambda>c. if c = CHR 0x09 then CHR '' '' else c)"
  have f: "?f xs \<noteq> [] \<and> last (?f xs) = last xs"
    using assms by (induction xs) (auto split: if_splits)
  have s1: "squeeze (?f xs) \<noteq> [] \<and> last (squeeze (?f xs)) = last xs"
    using f squeeze_last [of "?f xs"] by simp
  have m: "?m (squeeze (?f xs)) \<noteq> [] \<and> last (?m (squeeze (?f xs))) = last xs"
    using s1 assms by (simp add: last_map)
  have "squeeze (?f xs @ ?f ys) = squeeze (?f xs) @ squeeze (?f ys)"
    using f assms by (intro squeeze_append_left) simp
  moreover have "squeeze (?m (squeeze (?f xs)) @ ?m (squeeze (?f ys)))
      = squeeze (?m (squeeze (?f xs))) @ squeeze (?m (squeeze (?f ys)))"
    using m assms by (intro squeeze_append_left) simp
  ultimately show ?thesis by (simp add: collapse_alt)
qed

lemma collapse_append_right:
  assumes "ys \<noteq> []" "hd ys \<noteq> CHR '' ''" "hd ys \<noteq> CHR 0x09" "hd ys \<noteq> CHR 0x0A"
  shows "collapse_whitespace (xs @ ys) = collapse_whitespace xs @ collapse_whitespace ys"
proof -
  let ?f = "filter (\<lambda>c. c \<noteq> CHR 0x0A)"
  let ?m = "map (\<lambda>c. if c = CHR 0x09 then CHR '' '' else c)"
  have f: "?f ys \<noteq> [] \<and> hd (?f ys) = hd ys"
    using assms by (cases ys) auto
  have s1: "squeeze (?f ys) \<noteq> [] \<and> hd (squeeze (?f ys)) = hd ys"
    using f squeeze_hd [of "?f ys"] squeeze_last [of "?f ys"] by simp
  have m: "?m (squeeze (?f ys)) \<noteq> [] \<and> hd (?m (squeeze (?f ys))) = hd ys"
    using s1 assms by (simp add: hd_map)
  have "squeeze (?f xs @ ?f ys) = squeeze (?f xs) @ squeeze (?f ys)"
    using f assms by (intro squeeze_append_right) simp
  moreover have "squeeze (?m (squeeze (?f xs)) @ ?m (squeeze (?f ys)))
      = squeeze (?m (squeeze (?f xs))) @ squeeze (?m (squeeze (?f ys)))"
    using m assms by (intro squeeze_append_right) simp
  ultimately show ?thesis by (simp add: collapse_alt)
qed

lemma collapse_clean:
  assumes "CHR 0x0A \<notin> set s" "CHR 0x09 \<notin> set s" "\<not> sublist ''  '' s"
  shows "collapse_whitespace s = s"
proof -
  have "filter (\<lambda>c. c \<noteq> CHR 0x0A) s = s"
    using assms(1) by (induction s) auto
  moreover have "map (\<lambda>c. if c = CHR 0x09 then CHR '' '' else c) s = s"
    using assms(2) by (induction s) auto
  ultimately show ?thesis
    using assms(3) by (simp add: collapse_alt squeeze_clean)
qed

lemma template_substituted:
  \<open>str_replace ''$my_schema'' schema template =
     (''mutation {'' @ [CHR 0x0A] @
      ''  updateGQLSchema('' @ [CHR 0x0A] @
      ''    input: { set: { schema: "'') @ schema @
     (''"}})'' @ [CHR 0x0A] @
      ''  {'' @ [CHR 0x0A] @
      ''    gqlSchema {'' @ [CHR 0x0A] @
      ''      schema'' @ [CHR 0x0A] @
      ''      generatedSchema'' @ [CHR 0x0A] @
      ''    }'' @ [CHR 0x0A] @
      ''  }'' @ [CHR 0x0A] @
      ''}'' @ [CHR 0x0A])\<close>
  by (simp add: str_replace_def template_def)

lemma buildMutation_split:
  \<open>buildMutation schema =
     ''mutation { updateGQLSchema( input: { set: { schema: "'' @
     collapse_whitespace schema @
     ''"}}) { gqlSchema {  schema  generatedSchema } }}''\<close>
proof -
  let ?pre = \<open>''mutation {'' @ [CHR 0x0A] @
      ''  updateGQLSchema('' @ [CHR 0x0A] @
      ''    input: { set: { schema: "''\<close>
  let ?post = \<open>''"}})'' @ [CHR 0x0A] @
      ''  {'' @ [CHR 0x0A] @
      ''    gqlSchema {'' @ [CHR 0x0A] @
      ''      schema'' @ [CHR 0x0A] @
      ''      generatedSchema'' @ [CHR 0x0A] @
      ''    }'' @ [CHR 0x0A] @
      ''  }'' @ [CHR 0x0A] @
      ''}'' @ [CHR 0x0A]\<close>
  have a: "collapse_whitespace (?pre @ (schema @ ?post))
      = collapse_whitespace ?pre @ collapse_whitespace (schema @ ?post)"
    by (rule collapse_append_left) simp_all
  have b: "collapse_whitespace (schema @ ?post)
      = collapse_whitespace schema @ collapse_whitespace ?post"
    by (rule collapse_append_right) simp_all
  have c: \<open>collapse_whitespace ?pre = ''mutation { updateGQLSchema( input: { set: { schema: "''\<close>
    by (simp add: collapse_whitespace_def str_replace_def)
  have d: \<open>collapse_whitespace ?post = ''"}}) { gqlSchema {  schema  generatedSchema } }}''\<close>
    by (simp add: collapse_whitespace_def str_replace_def)
  show ?thesis
    unfolding buildMutation_def template_substituted using a b c d by simp
qed

text \<open>
  Claim C4, as amended. \<open>buildMutation\<close> is a function of the schema text alone, and the
  string it produces is a fixed opening, then the schema text after the same
  whitespace-collapsing passes as the template, then a fixed ending. A schema text with
  no newline, no tab and no doubled space therefore appears verbatim in the output.
\<close>

theorem buildMutation_embeds_collapsed_schema:
  \<open>buildMutation schema =
     ''mutation { updateGQLSchema( input: { set: { schema: "'' @
     collapse_whitespace schema @
     ''"}}) { gqlSchema {  schema  generatedSchema } }}''
   \<and> (CHR 0x0A \<notin> set schema \<and> CHR 0x09 \<notin> set schema \<and> \<not> sublist ''  '' schema \<longrightarrow>
        buildMutation schema =
          ''mutation { updateGQLSchema( input: { set: { schema: "'' @ schema @
          ''"}}) { gqlSchema {  schema  generatedSchema } }}''
        \<and> sublist schema (buildMutation schema))\<close>
proof -
  let ?p = \<open>''mutation { updateGQLSchema( input: { set: { schema: "''\<close>
  let ?q = \<open>''"}}) { gqlSchema {  schema  generatedSchema } }}''\<close>
  have split: "buildMutation schema = ?p @ collapse_whitespace schema @ ?q"
    by (rule buildMutation_split)
  have verbatim: "buildMutation schema = ?p @ schema @ ?q \<and> sublist schema (buildMutation schema)"
    if clean: "CHR 0x0A \<notin> set schema \<and> CHR 0x09 \<notin> set schema \<and> \<not> sublist ''  '' schema"
  proof -
    have "collapse_whitespace schema = schema"
      using clean by (simp add: collapse_clean)
    then have eq: "buildMutation schema = ?p @ schema @ ?q"
      using split by simp
    have "sublist schema (?p @ schema @ ?q)"
      unfolding sublist_def by blast
    then show ?thesis
      using eq by simp
  qed
  show ?thesis
    using split verbatim by blast
qed

theorem buildMutation_embeds_collapsed_schema_witness:
  \<open>CHR 0x0A \<notin> set ''type T { id: ID! }'' \<and> CHR 0x09 \<notin> set ''type T { id: ID! }''
   \<and> \<not> sublist ''  '' ''type T { id: ID! }''
   \<and> buildMutation ''type T { id: ID! }'' =
       ''mutation { updateGQLSchema( input: { set: { schema: "'' @ ''type T { id: ID! }'' @
       ''"}}) { gqlSchema {  schema  generatedSchema } }}''
   \<and> sublist ''type T { id: ID! }'' (buildMutation ''type T { id: ID! }'')\<close>
proof -
  have clean: "CHR 0x0A \<notin> set ''type T { id: ID! }'' \<and> CHR 0x09 \<notin> set ''type T { id: ID! }''
      \<and> \<not> sublist ''  '' ''type T { id: ID! }''"
    by (simp add: sublist_Cons_right)
  show ?thesis
    using clean buildMutation_embeds_collapsed_schema [of "''type T { id: ID! }''"]
    by blast
qed

text \<open>
  Claim C4 as stated fails: a schema text of two lines does not appear in the mutation
  built from it, because its newline is removed together with the template's.
\<close>

theorem buildMutation_not_verbatim:
  "\<not> sublist [CHR ''a'', CHR 0x0A, CHR ''b'']
       (buildMutation [CHR ''a'', CHR 0x0A, CHR ''b''])"
  by (simp add: buildMutation_split collapse_whitespace_def str_replace_def sublist_Cons_right)

text \<open>
  Claim C5, as amended. In the whitespace-collapsing step newlines are deleted, not
  turned into spaces: the first pass yields the input with every newline removed, the
  later passes squeeze doubled spaces, turn each tab into one space and squeeze doubled
  spaces once more. The collapsed output holds no newline and no tab, and each newline
  of the input shortens the output by at least one character.
\<close>

theorem collapse_whitespace_deletes_newlines:
  "str_replace [CHR 0x0A] [] s = filter (\<lambda>c. c \<noteq> CHR 0x0A) s
   \<and> collapse_whitespace s =
       squeeze (map (\<lambda>c. if c = CHR 0x09 then CHR '' '' else c)
         (squeeze (filter (\<lambda>c. c \<noteq> CHR 0x0A) s)))
   \<and> CHR 0x0A \<notin> set (collapse_whitespace s)
   \<and> CHR 0x09 \<notin> set (collapse_whitespace s)
   \<and> length (collapse_whitespace s) + length (filter (\<lambda>c. c = CHR 0x0A) s) \<le> length s"
proof -
  let ?f = "filter (\<lambda>c. c \<noteq> CHR 0x0A) s"
  let ?m = "map (\<lambda>c. if c = CHR 0x09 then CHR '' '' else c) (squeeze ?f)"
  have nl: "CHR 0x0A \<notin> set (squeeze ?f)"
    using squeeze_set [of ?f] by auto
  have "CHR 0x0A \<notin> set ?m"
    using nl by auto
  then have a: "CHR 0x0A \<notin> set (squeeze ?m)"
    using squeeze_set [of ?m] by blast
  have "CHR 0x09 \<notin> set ?m"
    by auto
  then have b: "CHR 0x09 \<notin> set (squeeze ?m)"
    using squeeze_set [of ?m] by blast
  have "length (squeeze ?m) \<le> length ?f"
    using squeeze_length [of ?m] squeeze_length [of ?f] by simp
  moreover have "length ?f + length (filter (\<lambda>c. c = CHR 0x0A) s) = length s"
    using sum_length_filter_compl [of "\<lambda>c. c \<noteq> CHR 0x0A" s] by (simp add: comp_def)
  ultimately have c: "length (squeeze ?m) + length (filter (\<lambda>c. c = CHR 0x0A) s) \<le> length s"
    by linarith
  show ?thesis
    using a b c by (simp add: collapse_alt replace_newline_filter)
qed

text \<open>
  Claim C5 as stated fails: the newline between two letters leaves no space behind.
\<close>

theorem collapse_whitespace_newline_no_space:
  "collapse_whitespace [CHR ''a'', CHR 0x0A, CHR ''b''] = ''ab''"
  by (simp add: collapse_whitespace_def str_replace_def)

text \<open>
  Claim C7. A string with no newline, no tab and no doubled space is left unchanged by
  the whitespace-collapsing step, so applying the step again changes nothing; and the
  step is not a full normalisation: some input with a run of three or more spaces still
  has a doubled space in its output.
\<close>

theorem collapse_whitespace_fixed_on_clean:
  "(CHR 0x0A \<notin> set s \<and> CHR 0x09 \<notin> set s \<and> \<not> sublist ''  '' s \<longrightarrow>
      collapse_whitespace s = s
      \<and> collapse_whitespace (collapse_whitespace s) = collapse_whitespace s)
   \<and> (\<exists>t. sublist ''   '' t \<and> sublist ''  '' (collapse_whitespace t))"
proof -
  have "sublist ''   '' ''a     b'' \<and> sublist ''  '' (collapse_whitespace ''a     b'')"
    by (simp add: collapse_whitespace_def str_replace_def sublist_Cons_right)
  then have "\<exists>t. sublist ''   '' t \<and> sublist ''  '' (collapse_whitespace t)"
    by (rule exI)
  then show ?thesis
    by (simp add: collapse_clean)
qed

theorem collapse_whitespace_fixed_on_clean_witness:
  "CHR 0x0A \<notin> set ''a b c'' \<and> CHR 0x09 \<notin> set ''a b c'' \<and> \<not> sublist ''  '' ''a b c''
   \<and> collapse_whitespace ''a b c'' = ''a b c''
   \<and> collapse_whitespace (collapse_whitespace ''a b c'') = collapse_whitespace ''a b c''"
  using collapse_whitespace_fixed_on_clean [of "''a b c''"]
  by (simp add: sublist_Cons_right)

section \<open>Properties of the two loops\<close>

lemma for_range_append:
  "for_range (xs @ ys) body s =
     (case for_range xs body s of Inl e \<Rightarrow> Inl e | Inr s' \<Rightarrow> for_range ys body s')"
  by (induction xs arbitrary: s) (auto split: sum.splits)

lemma last_reply_none:
  "\<forall>i<n. env (k + i) = Refused \<Longrightarrow> last_reply env k n = None"
  by (induction n) simp_all

lemma last_reply_last:
  "env (k + n) = Replied x \<Longrightarrow> last_reply env k (Suc n) = Some x"
  by simp

lemma concat_map_single: "concat (map (\<lambda>i. [x]) xs) = replicate (length xs) x"
  by (induction xs) simp_all

lemma connection_range:
  assumes "\<forall>i<length js. env (posts s + i) \<noteq> Failed"
  shows "for_range js (connection_body env) s =
     Inr (s\<lparr>posts := posts s + length js,
            r := (case last_reply env (posts s) (length js) of None \<Rightarrow> r s | Some x \<Rightarrow> Some x),
            trace := trace s @
              concat (map (\<lambda>i. attempt_events (mutation s) (env (posts s + i))) [0..<length js])\<rparr>)"
  using assms
proof (induction js rule: rev_induct)
  case Nil
  show ?case by simp
next
  case (snoc j js)
  then have ih: "for_range js (connection_body env) s =
     Inr (s\<lparr>posts := posts s + length js,
            r := (case last_reply env (posts s) (length js) of None \<Rightarrow> r s | Some x \<Rightarrow> Some x),
            trace := trace s @
              concat (map (\<lambda>i. attempt_events (mutation s) (env (posts s + i))) [0..<length js])\<rparr>)"
    by simp
  from snoc.prems have ok: "env (posts s + length js) \<noteq> Failed"
    by simp
  show ?case
  proof (cases "env (posts s + length js)")
    case (Replied x)
    then have "connection_body env j
        (s\<lparr>posts := posts s + length js,
            r := (case last_reply env (posts s) (length js) of None \<Rightarrow> r s | Some x \<Rightarrow> Some x),
            trace := trace s @
              concat (map (\<lambda>i. attempt_events (mutation s) (env (posts s + i))) [0..<length js])\<rparr>)
      = Inr (s\<lparr>posts := posts s + length (js @ [j]),
            r := (case last_reply env (posts s) (length (js @ [j])) of None \<Rightarrow> r s | Some x \<Rightarrow> Some x),
            trace := trace s @
              concat (map (\<lambda>i. attempt_events (mutation s) (env (posts s + i))) [0..<length (js @ [j])])\<rparr>)"
      by (simp add: connection_body_def post_def)
    then show ?thesis
      by (simp only: for_range_append ih sum.case for_range.simps)
  next
    case Refused
    then have "connection_body env j
        (s\<lparr>posts := posts s + length js,
            r := (case last_reply env (posts s) (length js) of None \<Rightarrow> r s | Some x \<Rightarrow> Some x),
            trace := trace s @
              concat (map (\<lambda>i. attempt_events (mutation s) (env (posts s + i))) [0..<length js])\<rparr>)
      = Inr (s\<lparr>posts := posts s + length (js @ [j]),
            r := (case last_reply env (posts s) (length (js @ [j])) of None \<Rightarrow> r s | Some x \<Rightarrow> Some x),
            trace := trace s @
              concat (map (\<lambda>i. attempt_events (mutation s) (env (posts s + i))) [0..<length (js @ [j])])\<rparr>)"
      by (simp add: connection_body_def post_def)
    then show ?thesis
      by (simp only: for_range_append ih sum.case for_range.simps)
  next
    case Failed
    with ok show ?thesis by simp
  qed
qed

lemma connection_loop_result:
  assumes "\<forall>i<15. env (posts s + i) \<noteq> Failed"
  shows "connection_loop env s =
     Inr (s\<lparr>posts := posts s + 15,
            r := (case last_reply env (posts s) 15 of None \<Rightarrow> r s | Some x \<Rightarrow> Some x),
            trace := trace s @
              concat (map (\<lambda>i. attempt_events (mutation s) (env (posts s + i))) [0..<15])\<rparr>)"
  unfolding connection_loop_def
  using connection_range [of "[0..<15]" env s] assms by simp

lemma polling_range_clean:
  assumes "message s = Some j" "py_in ''errors'' j = Inr False"
  shows "for_range js (polling_body env) s = Inr s"
  using assms by (induction js) (simp_all add: polling_body_def)

lemma polling_body_replied:
  assumes "message s = Some j" "py_in ''errors'' j = Inr True" "env (posts s) = Replied x"
  shows "polling_body env i s =
     Inr (s\<lparr>posts := posts s + 1, r := Some x,
            trace := trace s @ poll_events (mutation s) i\<rparr>)"
  using assms by (simp add: polling_body_def post_def poll_events_def)

lemma polling_body_refused:
  assumes "message s = Some j" "py_in ''errors'' j = Inr True" "env (posts s) = Refused"
  shows "polling_body env i s =
     Inl (ConnectionError,
          s\<lparr>posts := posts s + 1, trace := trace s @ [Post (mutation s)]\<rparr>)"
  using assms by (simp add: polling_body_def post_def)

lemma polling_range_errors:
  assumes "message s = Some j" "py_in ''errors'' j = Inr True"
    and "\<forall>i<length js. env (posts s + i) = Replied (f i)"
  shows "for_range js (polling_body env) s =
     Inr (s\<lparr>posts := posts s + length js,
            r := (if js = [] then r s else Some (f (length js - 1))),
            trace := trace s @ concat (map (poll_events (mutation s)) js)\<rparr>)"
  using assms(3)
proof (induction js rule: rev_induct)
  case Nil
  show ?case by simp
next
  case (snoc i js)
  let ?s1 = "s\<lparr>posts := posts s + length js,
            r := (if js = [] then r s else Some (f (length js - 1))),
            trace := trace s @ concat (map (poll_events (mutation s)) js)\<rparr>"
  from snoc have ih: "for_range js (polling_body env) s = Inr ?s1"
    by simp
  from snoc.prems have "env (posts ?s1) = Replied (f (length js))"
    by simp
  then have "polling_body env i ?s1 =
     Inr (?s1\<lparr>posts := posts ?s1 + 1, r := Some (f (length js)),
            trace := trace ?s1 @ poll_events (mutation ?s1) i\<rparr>)"
    using assms(1,2) by (intro polling_body_replied [where j = j]) simp_all
  then show ?case
    by (simp add: for_range_append ih)
qed

lemma polling_range_refused:
  assumes "message s = Some j" "py_in ''errors'' j = Inr True"
    and "\<forall>i<length js. env (posts s + i) = Replied (f i)"
    and "env (posts s + length js) = Refused"
  shows "for_range (js @ i # ks) (polling_body env) s =
     Inl (ConnectionError,
          s\<lparr>posts := posts s + length js + 1,
            r := (if js = [] then r s else Some (f (length js - 1))),
            trace := trace s @ concat (map (poll_events (mutation s)) js) @ [Post (mutation s)]\<rparr>)"
proof -
  let ?s1 = "s\<lparr>posts := posts s + length js,
            r := (if js = [] then r s else Some (f (length js - 1))),
            trace := trace s @ concat (map (poll_events (mutation s)) js)\<rparr>"
  have run: "for_range js (polling_body env) s = Inr ?s1"
    using assms(1,2,3) by (rule polling_range_errors)
  have "polling_body env i ?s1 =
     Inl (ConnectionError,
          ?s1\<lparr>posts := posts ?s1 + 1, trace := trace ?s1 @ [Post (mutation ?s1)]\<rparr>)"
    using assms(1,2,4) by (intro polling_body_refused [where j = j]) simp_all
  then show ?thesis
    by (simp add: for_range_append run)
qed

lemma polling_body_message:
  "(polling_body env i s = Inr s' \<longrightarrow> message s' = message s)
   \<and> (polling_body env i s = Inl (e, s') \<longrightarrow> message s' = message s)"
  by (auto simp: polling_body_def post_def split: option.splits sum.splits bool.splits outcome.splits)

lemma polling_range_message:
  "(for_range js (polling_body env) s = Inr s' \<longrightarrow> message s' = message s)
   \<and> (for_range js (polling_body env) s = Inl (e, s') \<longrightarrow> message s' = message s)"
proof (induction js arbitrary: s)
  case Nil
  show ?case by simp
next
  case (Cons i js)
  show ?case
  proof (cases "polling_body env i s")
    case (Inl a)
    then show ?thesis
      using polling_body_message [where env = env and i = i and s = s and e = e and s' = s'] by auto
  next
    case (Inr s1)
    then have "message s1 = message s"
      using polling_body_message [where env = env and i = i and s = s and s' = s1] by simp
    then show ?thesis
      using Cons [of s1] Inr by simp
  qed
qed

section \<open>Runs of the whole script\<close>

lemma last_reply_fifteen:
  "env (k + 14) = Replied x \<Longrightarrow> last_reply env k 15 = Some x"
  using last_reply_last [of env k 14 x] by simp

lemma filter_concat_replicate:
  "filter P (concat (replicate n xs)) = concat (replicate n (filter P xs))"
  by (induction n) simp_all

lemma concat_replicate_Nil: "concat (replicate n []) = []"
  by (induction n) simp_all

lemma filter_concat_poll_events:
  "filter is_report (concat (map (poll_events m) js)) = []"
  by (induction js) (simp_all add: poll_events_def)

lemma connection_loop_all_replied:
  assumes "\<forall>i<15. env (posts s + i) = Replied (f i)"
  shows "connection_loop env s =
     Inr (s\<lparr>posts := posts s + 15, r := Some (f 14),
            trace := trace s @ replicate 15 (Post (mutation s))\<rparr>)"
proof -
  have ok: "\<forall>i<15. env (posts s + i) \<noteq> Failed"
    using assms by simp
  have last: "last_reply env (posts s) 15 = Some (f 14)"
    using assms by (intro last_reply_fifteen) simp
  have "map (\<lambda>i. attempt_events (mutation s) (env (posts s + i))) [0..<15]
      = map (\<lambda>i. [Post (mutation s)]) [0..<15]"
    using assms by (intro map_cong) simp_all
  then have "concat (map (\<lambda>i. attempt_events (mutation s) (env (posts s + i))) [0..<15])
      = replicate 15 (Post (mutation s))"
    by (simp only: concat_map_single) simp
  then show ?thesis
    using connection_loop_result [OF ok] last by simp
qed

lemma connection_loop_all_refused:
  assumes "\<forall>i<15. env (posts s + i) = Refused"
  shows "connection_loop env s =
     Inr (s\<lparr>posts := posts s + 15,
            trace := trace s @
              concat (replicate 15 [Post (mutation s), Sleep 1, Print ''Waiting for connection''])\<rparr>)"
proof -
  have ok: "\<forall>i<15. env (posts s + i) \<noteq> Failed"
    using assms by simp
  have last: "last_reply env (posts s) 15 = None"
    using assms by (intro last_reply_none) simp
  have "map (\<lambda>i. attempt_events (mutation s) (env (posts s + i))) [0..<15]
      = map (\<lambda>i. [Post (mutation s), Sleep 1, Print ''Waiting for connection'']) [0..<15]"
    using assms by (intro map_cong) simp_all
  then have "map (\<lambda>i. attempt_events (mutation s) (env (posts s + i))) [0..<15]
      = replicate 15 [Post (mutation s), Sleep 1, Print ''Waiting for connection'']"
    by (simp only: map_replicate_const) simp
  then show ?thesis
    using connection_loop_result [OF ok] last by simp
qed

lemma polling_loop_clean:
  assumes "message s = Some j" "py_in ''errors'' j = Inr False"
  shows "polling_loop env s = Inr s"
  unfolding polling_loop_def using assms by (rule polling_range_clean)

lemma polling_loop_errors:
  assumes "message s = Some j" "py_in ''errors'' j = Inr True"
    and "\<forall>i<15. env (posts s + i) = Replied (f i)"
  shows "polling_loop env s =
     Inr (s\<lparr>posts := posts s + 15, r := Some (f 14),
            trace := trace s @ concat (map (poll_events (mutation s)) [0..<15])\<rparr>)"
proof -
  have "\<forall>i<length [0..<15]. env (posts s + i) = Replied (f i)"
    using assms(3) by simp
  from polling_range_errors [OF assms(1,2) this] show ?thesis
    by (simp add: polling_loop_def)
qed

lemma polling_loop_refused:
  assumes "message s = Some j" "py_in ''errors'' j = Inr True"
    and "n < 15"
    and "\<forall>i<n. env (posts s + i) = Replied (f i)"
    and "env (posts s + n) = Refused"
  shows "polling_loop env s =
     Inl (ConnectionError,
          s\<lparr>posts := posts s + n + 1,
            r := (if n = 0 then r s else Some (f (n - 1))),
            trace := trace s @ concat (map (poll_events (mutation s)) [0..<n]) @ [Post (mutation s)]\<rparr>)"
proof -
  have "[0..<n + (15 - n)] = [0..<n] @ [n..<n + (15 - n)]"
    by (rule upt_add_eq_append) simp
  moreover have "n + (15 - n) = 15"
    using assms(3) by simp
  moreover have "[n..<15] = n # [Suc n..<15]"
    using assms(3) by (rule upt_conv_Cons)
  ultimately have split: "[0..<15] = [0..<n] @ n # [Suc n..<15]"
    by simp
  have a: "\<forall>i<length [0..<n]. env (posts s + i) = Replied (f i)"
    using assms(4) by simp
  have b: "env (posts s + length [0..<n]) = Refused"
    using assms(5) by simp
  from polling_range_refused [OF assms(1,2) a b, of n "[Suc n..<15]"] show ?thesis
    unfolding polling_loop_def split by simp
qed

lemma has_errors_keyD:
  "has_errors_key x \<Longrightarrow> \<exists>j. decoded x = Some j \<and> py_in ''errors'' j = Inr True"
  by (auto split: option.splits json.splits)

text \<open>
  Claim C1 is not met by the script. With an endpoint that answers every POST at once
  with a body holding \<^verbatim>\<open>gqlSchema\<close> and no \<^verbatim>\<open>"errors"\<close> key, the run sends the
  mutation 15 times, once in each pass of the first loop, where the claim says exactly
  one POST; it does not sleep, and it prints the response of the last POST.
\<close>

theorem reachable_endpoint_gets_fifteen_posts:
  "run (\<lambda>k. Replied clean_response) (Some schema) =
     Inr \<lparr>mutation = buildMutation schema, r = Some clean_response,
          message = Some clean_body, posts = 15,
          trace = Print (buildMutation schema) #
            replicate 15 (Post (buildMutation schema)) @
            [PrintResponse clean_response, PrintJson clean_body]\<rparr>
   \<and> filter is_sleep (actions (run (\<lambda>k. Replied clean_response) (Some schema))) = []"
proof -
  let ?env = "\<lambda>k::nat. Replied clean_response"
  let ?m = "buildMutation schema"
  have "\<forall>i<15. ?env (posts (start schema) + i) = Replied ((\<lambda>i. clean_response) i)"
    by simp
  from connection_loop_all_replied [OF this]
  have s1: "connection_loop ?env (start schema) =
      Inr \<lparr>mutation = ?m, r = Some clean_response, message = None, posts = 15,
          trace = Print ?m # replicate 15 (Post ?m)\<rparr>"
    by (simp add: start_def)
  let ?s2 = "\<lparr>mutation = ?m, r = Some clean_response, message = Some clean_body, posts = 15,
      trace = Print ?m # replicate 15 (Post ?m)\<rparr>"
  have s2: "read_message \<lparr>mutation = ?m, r = Some clean_response, message = None, posts = 15,
          trace = Print ?m # replicate 15 (Post ?m)\<rparr> = Inr ?s2"
    by (simp add: read_message_def clean_response_def)
  have "py_in ''errors'' clean_body = Inr False"
    by (simp add: clean_body_def)
  then have s3: "polling_loop ?env ?s2 = Inr ?s2"
    by (intro polling_loop_clean [where j = clean_body]) simp_all
  have run: "run ?env (Some schema) =
     Inr \<lparr>mutation = ?m, r = Some clean_response, message = Some clean_body, posts = 15,
          trace = Print ?m # replicate 15 (Post ?m) @
            [PrintResponse clean_response, PrintJson clean_body]\<rparr>"
    by (simp add: run_def bind_result_def s1 s2 s3 report_def) (simp add: clean_response_def)
  show ?thesis
    unfolding run by (simp add: actions_def)
qed

text \<open>
  Claim C2 is not met by the script. With an endpoint whose first 4 responses hold an
  \<^verbatim>\<open>"errors"\<close> key and whose later ones are clean, the first loop alone sends 15
  POSTs, the message decoded afterwards is the clean 15th one, and the second loop
  neither re-POSTs nor sleeps. With an endpoint whose first 18 responses hold the key,
  the message decoded after the first loop holds it and is never refreshed, so the
  second loop re-POSTs and sleeps 15 times although the responses are clean from the
  fourth re-POST on. In neither run are there exactly 4 extra POSTs and 4 waits.
\<close>

theorem four_erroring_polls_not_four_waits:
  "run (\<lambda>k. if k < 4 then Replied error_response else Replied clean_response) (Some schema) =
     Inr \<lparr>mutation = buildMutation schema, r = Some clean_response,
          message = Some clean_body, posts = 15,
          trace = Print (buildMutation schema) #
            replicate 15 (Post (buildMutation schema)) @
            [PrintResponse clean_response, PrintJson clean_body]\<rparr>
   \<and> run (\<lambda>k. if k < 18 then Replied error_response else Replied clean_response) (Some schema) =
     Inr \<lparr>mutation = buildMutation schema, r = Some clean_response,
          message = Some error_body, posts = 30,
          trace = Print (buildMutation schema) #
            replicate 15 (Post (buildMutation schema)) @
            concat (map (poll_events (buildMutation schema)) [0..<15]) @
            [PrintResponse clean_response, PrintJson clean_body]\<rparr>"
proof -
  let ?m = "buildMutation schema"
  let ?a = "\<lambda>k::nat. if k < 4 then Replied error_response else Replied clean_response"
  let ?b = "\<lambda>k::nat. if k < 18 then Replied error_response else Replied clean_response"
  have "\<forall>i<15. ?a (posts (start schema) + i)
      = Replied ((\<lambda>i. if i < 4 then error_response else clean_response) i)"
    by (simp add: start_def)
  from connection_loop_all_replied [OF this]
  have a1: "connection_loop ?a (start schema) =
      Inr \<lparr>mutation = ?m, r = Some clean_response, message = None, posts = 15,
          trace = Print ?m # replicate 15 (Post ?m)\<rparr>"
    by (simp add: start_def)
  let ?a2 = "\<lparr>mutation = ?m, r = Some clean_response, message = Some clean_body, posts = 15,
      trace = Print ?m # replicate 15 (Post ?m)\<rparr>"
  have a2: "read_message \<lparr>mutation = ?m, r = Some clean_response, message = None, posts = 15,
          trace = Print ?m # replicate 15 (Post ?m)\<rparr> = Inr ?a2"
    by (simp add: read_message_def clean_response_def)
  have clean: "py_in ''errors'' clean_body = Inr False"
    by (simp add: clean_body_def)
  then have a3: "polling_loop ?a ?a2 = Inr ?a2"
    by (intro polling_loop_clean [where j = clean_body]) simp_all
  have run_a: "run ?a (Some schema) =
     Inr \<lparr>mutation = ?m, r = Some clean_response, message = Some clean_body, posts = 15,
          trace = Print ?m # replicate 15 (Post ?m) @
            [PrintResponse clean_response, PrintJson clean_body]\<rparr>"
    by (simp add: run_def bind_result_def a1 a2 a3 report_def) (simp add: clean_response_def)
  have "\<forall>i<15. ?b (posts (start schema) + i) = Replied ((\<lambda>i. error_response) i)"
    by (simp add: start_def)
  from connection_loop_all_replied [OF this]
  have b1: "connection_loop ?b (start schema) =
      Inr \<lparr>mutation = ?m, r = Some error_response, message = None, posts = 15,
          trace = Print ?m # replicate 15 (Post ?m)\<rparr>"
    by (simp add: start_def)
  let ?b2 = "\<lparr>mutation = ?m, r = Some error_response, message = Some error_body, posts = 15,
      trace = Print ?m # replicate 15 (Post ?m)\<rparr>"
  have b2: "read_message \<lparr>mutation = ?m, r = Some error_response, message = None, posts = 15,
          trace = Print ?m # replicate 15 (Post ?m)\<rparr> = Inr ?b2"
    by (simp add: read_message_def error_response_def)
  have err: "py_in ''errors'' error_body = Inr True"
    by (simp add: error_body_def)
  have "\<forall>i<15. ?b (posts ?b2 + i)
      = Replied ((\<lambda>i. if i < 3 then error_response else clean_response) i)"
    by auto
  then have b3: "polling_loop ?b ?b2 =
      Inr \<lparr>mutation = ?m, r = Some clean_response, message = Some error_body, posts = 30,
          trace = Print ?m # replicate 15 (Post ?m) @ concat (map (poll_events ?m) [0..<15])\<rparr>"
    using polling_loop_errors
      [of ?b2 error_body ?b "\<lambda>i. if i < 3 then error_response else clean_response"] err
    by simp
  have run_b: "run ?b (Some schema) =
     Inr \<lparr>mutation = ?m, r = Some clean_response, message = Some error_body, posts = 30,
          trace = Print ?m # replicate 15 (Post ?m) @ concat (map (poll_events ?m) [0..<15]) @
            [PrintResponse clean_response, PrintJson clean_body]\<rparr>"
    by (simp add: run_def bind_result_def b1 b2 b3 report_def) (simp add: clean_response_def)
  show ?thesis
    using run_a run_b by simp
qed

text \<open>
  Claim C3. If all 15 POSTs of the first loop raise a connection error, then the loop
  ends normally with \<open>r\<close> still unbound, after 15 POSTs, each followed by a one second
  sleep and the waiting message. The statement after the loop,
  \<^verbatim>\<open>message = r.json()\<close>, references \<open>r\<close> and raises \<open>NameError\<close> in that very
  state; nothing handles it, so the run ends there with that error, and neither the
  response nor its body is printed.
\<close>

theorem all_refused_ends_in_NameError:
  assumes "\<forall>k<15. env k = Refused"
  shows "connection_loop env (start schema) =
     Inr \<lparr>mutation = buildMutation schema, r = None, message = None, posts = 15,
          trace = Print (buildMutation schema) #
            concat (replicate 15
              [Post (buildMutation schema), Sleep 1, Print ''Waiting for connection''])\<rparr>
   \<and> read_message
        \<lparr>mutation = buildMutation schema, r = None, message = None, posts = 15,
         trace = Print (buildMutation schema) #
           concat (replicate 15
             [Post (buildMutation schema), Sleep 1, Print ''Waiting for connection''])\<rparr> =
     Inl (NameError,
          \<lparr>mutation = buildMutation schema, r = None, message = None, posts = 15,
           trace = Print (buildMutation schema) #
             concat (replicate 15
               [Post (buildMutation schema), Sleep 1, Print ''Waiting for connection''])\<rparr>)
   \<and> run env (Some schema) =
     Inl (NameError,
          \<lparr>mutation = buildMutation schema, r = None, message = None, posts = 15,
           trace = Print (buildMutation schema) #
             concat (replicate 15
               [Post (buildMutation schema), Sleep 1, Print ''Waiting for connection''])\<rparr>)
   \<and> filter is_report (actions (run env (Some schema))) = []"
proof -
  let ?s1 = "\<lparr>mutation = buildMutation schema, r = None, message = None, posts = 15,
      trace = Print (buildMutation schema) #
        concat (replicate 15
          [Post (buildMutation schema), Sleep 1, Print ''Waiting for connection''])\<rparr>"
  have "\<forall>i<15. env (posts (start schema) + i) = Refused"
    using assms by (simp add: start_def)
  from connection_loop_all_refused [OF this]
  have loop: "connection_loop env (start schema) = Inr ?s1"
    by (simp add: start_def)
  have unbound: "read_message ?s1 = Inl (NameError, ?s1)"
    by (simp add: read_message_def)
  have run: "run env (Some schema) = Inl (NameError, ?s1)"
    by (simp only: run_def bind_result_def loop unbound option.case sum.case)
  have quiet: "filter is_report (actions (run env (Some schema))) = []"
    unfolding run by (simp add: actions_def filter_concat_replicate concat_replicate_Nil)
  show ?thesis
    using loop unbound run quiet by (intro conjI)
qed

theorem all_refused_ends_in_NameError_witness:
  "connection_loop (\<lambda>k. Refused) (start ''type T'') =
     Inr \<lparr>mutation = buildMutation ''type T'', r = None, message = None, posts = 15,
          trace = Print (buildMutation ''type T'') #
            concat (replicate 15
              [Post (buildMutation ''type T''), Sleep 1, Print ''Waiting for connection''])\<rparr>
   \<and> read_message
        \<lparr>mutation = buildMutation ''type T'', r = None, message = None, posts = 15,
         trace = Print (buildMutation ''type T'') #
           concat (replicate 15
             [Post (buildMutation ''type T''), Sleep 1, Print ''Waiting for connection''])\<rparr> =
     Inl (NameError,
          \<lparr>mutation = buildMutation ''type T'', r = None, message = None, posts = 15,
           trace = Print (buildMutation ''type T'') #
             concat (replicate 15
               [Post (buildMutation ''type T''), Sleep 1, Print ''Waiting for connection''])\<rparr>)
   \<and> run (\<lambda>k. Refused) (Some ''type T'') =
     Inl (NameError,
          \<lparr>mutation = buildMutation ''type T'', r = None, message = None, posts = 15,
           trace = Print (buildMutation ''type T'') #
             concat (replicate 15
               [Post (buildMutation ''type T''), Sleep 1, Print ''Waiting for connection''])\<rparr>)
   \<and> filter is_report (actions (run (\<lambda>k. Refused) (Some ''type T''))) = []"
proof -
  have h: "\<forall>k<15. (\<lambda>k. Refused) k = Refused"
    by simp
  show ?thesis
    using all_refused_ends_in_NameError [of "\<lambda>k. Refused" "''type T''", OF h] .
qed

text \<open>
  Claim C6. If every POST is answered and every response body is a JSON object with an
  \<^verbatim>\<open>"errors"\<close> key, the run ends normally: after the 15 POSTs of the first loop and
  the 15 re-POSTs of the second, each re-POST followed by the progress message and a
  three second sleep, it prints the last response (that of POST number 30) and its
  decoded body, which still has the \<^verbatim>\<open>"errors"\<close> key.
\<close>

theorem always_erroring_reports_last_response:
  assumes "\<forall>k<30. env k = Replied (f k) \<and> has_errors_key (f k)"
  shows "run env (Some schema) =
     Inr \<lparr>mutation = buildMutation schema, r = Some (f 29), message = decoded (f 14),
          posts = 30,
          trace = Print (buildMutation schema) #
            replicate 15 (Post (buildMutation schema)) @
            concat (map (poll_events (buildMutation schema)) [0..<15]) @
            [PrintResponse (f 29), PrintJson (the (decoded (f 29)))]\<rparr>
   \<and> has_errors_key (f 29)"
proof -
  let ?m = "buildMutation schema"
  have conn: "\<forall>i<15. env (posts (start schema) + i) = Replied (f i)"
    using assms by (simp add: start_def)
  obtain j where j: "decoded (f 14) = Some j" "py_in ''errors'' j = Inr True"
    using assms has_errors_keyD [of "f 14"] by auto
  obtain j' where j': "decoded (f 29) = Some j'"
    using assms has_errors_keyD [of "f 29"] by auto
  let ?s2 = "\<lparr>mutation = ?m, r = Some (f 14), message = Some j, posts = 15,
      trace = Print ?m # replicate 15 (Post ?m)\<rparr>"
  have s1: "connection_loop env (start schema) =
      Inr \<lparr>mutation = ?m, r = Some (f 14), message = None, posts = 15,
          trace = Print ?m # replicate 15 (Post ?m)\<rparr>"
    using connection_loop_all_replied [OF conn] by (simp add: start_def)
  have s2: "read_message \<lparr>mutation = ?m, r = Some (f 14), message = None, posts = 15,
          trace = Print ?m # replicate 15 (Post ?m)\<rparr> = Inr ?s2"
    using j by (simp add: read_message_def)
  have "\<forall>i<15. env (posts ?s2 + i) = Replied (f (15 + i))"
    using assms by simp
  then have s3: "polling_loop env ?s2 =
      Inr \<lparr>mutation = ?m, r = Some (f 29), message = Some j, posts = 30,
          trace = Print ?m # replicate 15 (Post ?m) @ concat (map (poll_events ?m) [0..<15])\<rparr>"
    using polling_loop_errors [of ?s2 j env "\<lambda>i. f (15 + i)"] j by simp
  have "run env (Some schema) =
     Inr \<lparr>mutation = ?m, r = Some (f 29), message = decoded (f 14), posts = 30,
          trace = Print ?m # replicate 15 (Post ?m) @ concat (map (poll_events ?m) [0..<15]) @
            [PrintResponse (f 29), PrintJson (the (decoded (f 29)))]\<rparr>"
    using j j' by (simp add: run_def bind_result_def s1 s2 s3 report_def)
  then show ?thesis
    using assms by simp
qed

theorem always_erroring_reports_last_response_witness:
  "run (\<lambda>k. Replied error_response) (Some ''type T'') =
     Inr \<lparr>mutation = buildMutation ''type T'', r = Some error_response,
          message = decoded error_response, posts = 30,
          trace = Print (buildMutation ''type T'') #
            replicate 15 (Post (buildMutation ''type T'')) @
            concat (map (poll_events (buildMutation ''type T'')) [0..<15]) @
            [PrintResponse error_response, PrintJson (the (decoded error_response))]\<rparr>
   \<and> has_errors_key error_response"
proof -
  have h: "\<forall>k<30. (\<lambda>k. Replied error_response) k = Replied ((\<lambda>k. error_response) k)
        \<and> has_errors_key ((\<lambda>k. error_response) k)"
    by (simp add: error_response_def error_body_def)
  show ?thesis
    using h always_erroring_reports_last_response
      [of "\<lambda>k. Replied error_response" "\<lambda>k. error_response" "''type T''", OF h]
    by blast
qed

lemma filter_sleep_poll_events:
  "filter is_sleep (concat (map (poll_events m) js)) = replicate (length js) (Sleep 3)"
  by (induction js) (simp_all add: poll_events_def)

lemma connection_body_reports:
  "connection_body env i s = Inr s' \<Longrightarrow>
     filter is_report (trace s') = filter is_report (trace s) \<and> message s' = message s"
  by (auto simp: connection_body_def post_def split: outcome.splits)

lemma connection_range_reports:
  "for_range js (connection_body env) s = Inr s' \<Longrightarrow>
     filter is_report (trace s') = filter is_report (trace s) \<and> message s' = message s"
proof (induction js arbitrary: s)
  case Nil
  then show ?case by simp
next
  case (Cons i js)
  then obtain s1 where step: "connection_body env i s = Inr s1"
    and rest: "for_range js (connection_body env) s1 = Inr s'"
    by (auto split: sum.splits)
  from Cons.IH [OF rest] connection_body_reports [OF step] show ?case
    by simp
qed

text \<open>
  Claim C8. The first loop has no early exit on success. Whenever none of its POSTs
  raises an exception other than a connection error, all 15 passes run: 15 POSTs are
  issued, whatever mix of replies and refusals they meet, and afterwards \<open>r\<close> is bound
  to the reply of the last POST that was answered (and keeps its old binding if none
  was). In particular, when the endpoint answers from the start, the mutation is
  POSTed 15 times by this loop alone and \<open>r\<close> is the reply to the 15th POST.
\<close>

theorem connection_loop_runs_all_fifteen:
  "((\<forall>k<15. env (posts s + k) \<noteq> Failed) \<longrightarrow>
      connection_loop env s =
        Inr (s\<lparr>posts := posts s + 15,
               r := (case last_reply env (posts s) 15 of None \<Rightarrow> r s | Some x \<Rightarrow> Some x),
               trace := trace s @
                 concat (map (\<lambda>k. attempt_events (mutation s) (env (posts s + k))) [0..<15])\<rparr>))
   \<and> ((\<forall>k<15. env (posts s + k) = Replied (f k)) \<longrightarrow>
      connection_loop env s =
        Inr (s\<lparr>posts := posts s + 15, r := Some (f 14),
               trace := trace s @ replicate 15 (Post (mutation s))\<rparr>))"
  using connection_loop_result [of env s] connection_loop_all_replied [of env s f]
  by blast

theorem connection_loop_runs_all_fifteen_witness:
  "connection_loop (\<lambda>k. Replied clean_response) (start ''type T'') =
     Inr ((start ''type T'')\<lparr>posts := posts (start ''type T'') + 15,
            r := Some ((\<lambda>k. clean_response) 14),
            trace := trace (start ''type T'') @
              replicate 15 (Post (mutation (start ''type T'')))\<rparr>)
   \<and> connection_loop (\<lambda>k. Replied clean_response) (start ''type T'') =
     Inr ((start ''type T'')\<lparr>posts := posts (start ''type T'') + 15,
            r := (case last_reply (\<lambda>k. Replied clean_response) (posts (start ''type T'')) 15 of
                    None \<Rightarrow> r (start ''type T'') | Some x \<Rightarrow> Some x),
            trace := trace (start ''type T'') @
              concat (map (\<lambda>k. attempt_events (mutation (start ''type T''))
                             ((\<lambda>k. Replied clean_response) (posts (start ''type T'') + k)))
                        [0..<15])\<rparr>)"
proof -
  let ?env = "\<lambda>k::nat. Replied clean_response"
  let ?s = "start ''type T''"
  have h1: "\<forall>k<15. ?env (posts ?s + k) \<noteq> Failed"
    by simp
  have h2: "\<forall>k<15. ?env (posts ?s + k) = Replied ((\<lambda>k. clean_response) k)"
    by simp
  show ?thesis
    using h1 h2 connection_loop_runs_all_fifteen [of ?env ?s "\<lambda>k. clean_response"]
    by blast
qed

text \<open>
  Claim C9. The second loop never assigns \<open>message\<close>: whether it ends normally or with
  an exception, \<open>message\<close> is what it was before the loop. Hence, if the message tested
  holds \<^verbatim>\<open>"errors"\<close> and every re-POST is answered, the loop re-POSTs 15 times and
  sleeps three seconds 15 times, whatever the re-POST responses contain; and if the
  message does not hold \<^verbatim>\<open>"errors"\<close>, the loop changes nothing: no re-POST at all.
\<close>

theorem polling_loop_keeps_message:
  "((polling_loop env s = Inr s' \<or> polling_loop env s = Inl (e, s')) \<longrightarrow>
      message s' = message s)
   \<and> (message s = Some j \<and> py_in ''errors'' j = Inr True
        \<and> (\<forall>k<15. env (posts s + k) = Replied (f k)) \<longrightarrow>
      polling_loop env s =
        Inr (s\<lparr>posts := posts s + 15, r := Some (f 14),
               trace := trace s @ concat (map (poll_events (mutation s)) [0..<15])\<rparr>)
      \<and> filter is_sleep (concat (map (poll_events (mutation s)) [0..<15]))
          = replicate 15 (Sleep 3))
   \<and> (message t = Some j' \<and> py_in ''errors'' j' = Inr False \<longrightarrow> polling_loop env t = Inr t)"
proof -
  have a: "(polling_loop env s = Inr s' \<or> polling_loop env s = Inl (e, s')) \<longrightarrow>
      message s' = message s"
    unfolding polling_loop_def
    using polling_range_message [where js = "[0..<15]" and env = env and s = s and s' = s' and e = e]
    by blast
  have b: "filter is_sleep (concat (map (poll_events (mutation s)) [0..<15]))
      = replicate 15 (Sleep 3)"
    by (simp only: filter_sleep_poll_events) simp
  show ?thesis
    using a b polling_loop_errors [of s j env f] polling_loop_clean [of t j' env]
    by blast
qed

theorem polling_loop_keeps_message_witness:
  "polling_loop (\<lambda>k. Replied clean_response)
     \<lparr>mutation = ''m'', r = Some error_response, message = Some error_body, posts = 15, trace = []\<rparr>
     = Inr \<lparr>mutation = ''m'', r = Some clean_response, message = Some error_body, posts = 30,
          trace = concat (map (poll_events ''m'') [0..<15])\<rparr>
   \<and> filter is_sleep (concat (map (poll_events ''m'') [0..<15])) = replicate 15 (Sleep 3)
   \<and> polling_loop (\<lambda>k. Replied error_response)
     \<lparr>mutation = ''m'', r = Some clean_response, message = Some clean_body, posts = 15, trace = []\<rparr>
     = Inr \<lparr>mutation = ''m'', r = Some clean_response, message = Some clean_body, posts = 15,
          trace = []\<rparr>"
proof -
  let ?s = "\<lparr>mutation = ''m'', r = Some error_response, message = Some error_body, posts = 15,
      trace = []\<rparr>"
  let ?t = "\<lparr>mutation = ''m'', r = Some clean_response, message = Some clean_body, posts = 15,
      trace = []\<rparr>"
  let ?env = "\<lambda>k::nat. Replied clean_response"
  have h1: "message ?s = Some error_body \<and> py_in ''errors'' error_body = Inr True
      \<and> (\<forall>k<15. ?env (posts ?s + k) = Replied ((\<lambda>k. clean_response) k))"
    by (simp add: error_body_def)
  have h2: "message ?t = Some clean_body \<and> py_in ''errors'' clean_body = Inr False"
    by (simp add: clean_body_def)
  have a: "polling_loop ?env ?s =
        Inr (?s\<lparr>posts := posts ?s + 15, r := Some ((\<lambda>k. clean_response) 14),
               trace := trace ?s @ concat (map (poll_events (mutation ?s)) [0..<15])\<rparr>)
      \<and> filter is_sleep (concat (map (poll_events (mutation ?s)) [0..<15]))
          = replicate 15 (Sleep 3)"
    using h1 polling_loop_keeps_message
      [of ?env ?s _ _ error_body "\<lambda>k. clean_response" ?t clean_body]
    by blast
  have b: "polling_loop (\<lambda>k. Replied error_response) ?t = Inr ?t"
    using h2 polling_loop_keeps_message
      [of "\<lambda>k. Replied error_response" _ _ _ _ _ ?t clean_body]
    by blast
  have c: "message (?s\<lparr>posts := posts ?s + 15, r := Some ((\<lambda>k. clean_response) 14),
               trace := trace ?s @ concat (map (poll_events (mutation ?s)) [0..<15])\<rparr>)
      = message ?s"
    using a polling_loop_keeps_message [of ?env ?s
        "?s\<lparr>posts := posts ?s + 15, r := Some ((\<lambda>k. clean_response) 14),
               trace := trace ?s @ concat (map (poll_events (mutation ?s)) [0..<15])\<rparr>"]
    by blast
  show ?thesis
    using a b c by simp
qed

text \<open>
  Claim C10. A connection error raised by a re-POST of the second loop is not caught.
  If the first loop ends normally, the decoded message holds \<^verbatim>\<open>"errors"\<close>, the first
  \<open>n\<close> re-POSTs are answered and re-POST number \<open>n + 1\<close> (with \<open>n < 15\<close>) is refused, then
  the run ends with the unhandled \<open>ConnectionError\<close> right after that POST: no sleep,
  no waiting message, no further POST, and neither the response nor its body is printed.
\<close>

theorem refused_repost_is_unhandled:
  assumes "connection_loop env (start schema) = Inr s1"
    and "read_message s1 = Inr s2"
    and "message s2 = Some j"
    and "py_in ''errors'' j = Inr True"
    and "n < 15"
    and "\<forall>k<n. env (posts s2 + k) = Replied (g k)"
    and "env (posts s2 + n) = Refused"
  shows "run env (Some schema) =
     Inl (ConnectionError,
          s2\<lparr>posts := posts s2 + n + 1,
             r := (if n = 0 then r s2 else Some (g (n - 1))),
             trace := trace s2 @ concat (map (poll_events (mutation s2)) [0..<n]) @
               [Post (mutation s2)]\<rparr>)
   \<and> filter is_report (actions (run env (Some schema))) = []"
proof -
  let ?s3 = "s2\<lparr>posts := posts s2 + n + 1,
             r := (if n = 0 then r s2 else Some (g (n - 1))),
             trace := trace s2 @ concat (map (poll_events (mutation s2)) [0..<n]) @
               [Post (mutation s2)]\<rparr>"
  have poll: "polling_loop env s2 = Inl (ConnectionError, ?s3)"
    using assms(3-7) by (rule polling_loop_refused)
  have run: "run env (Some schema) = Inl (ConnectionError, ?s3)"
    by (simp add: run_def bind_result_def assms(1,2) poll)
  have "filter is_report (trace s1) = filter is_report (trace (start schema))"
    using assms(1) connection_range_reports [of "[0..<15]" env "start schema" s1]
    by (simp add: connection_loop_def)
  then have "filter is_report (trace s1) = []"
    by (simp add: start_def)
  moreover have "trace s2 = trace s1"
    using assms(2) by (auto simp: read_message_def split: option.splits)
  ultimately have "filter is_report (trace ?s3) = []"
    by (simp add: filter_concat_poll_events)
  then show ?thesis
    unfolding run by (simp add: actions_def)
qed

theorem refused_repost_is_unhandled_witness:
  "run (\<lambda>k. if k < 17 then Replied error_response else Refused) (Some ''type T'') =
     Inl (ConnectionError,
          \<lparr>mutation = buildMutation ''type T'', r = Some error_response,
           message = Some error_body, posts = 18,
           trace = Print (buildMutation ''type T'') #
             replicate 15 (Post (buildMutation ''type T'')) @
             concat (map (poll_events (buildMutation ''type T'')) [0..<2]) @
             [Post (buildMutation ''type T'')]\<rparr>)
   \<and> filter is_report
        (actions (run (\<lambda>k. if k < 17 then Replied error_response else Refused) (Some ''type T'')))
      = []"
proof -
  let ?env = "\<lambda>k::nat. if k < 17 then Replied error_response else Refused"
  let ?m = "buildMutation ''type T''"
  let ?s1 = "\<lparr>mutation = ?m, r = Some error_response, message = None, posts = 15,
      trace = Print ?m # replicate 15 (Post ?m)\<rparr>"
  let ?s2 = "\<lparr>mutation = ?m, r = Some error_response, message = Some error_body, posts = 15,
      trace = Print ?m # replicate 15 (Post ?m)\<rparr>"
  have "\<forall>i<15. ?env (posts (start ''type T'') + i) = Replied ((\<lambda>i. error_response) i)"
    by (simp add: start_def)
  from connection_loop_all_replied [OF this]
  have h1: "connection_loop ?env (start ''type T'') = Inr ?s1"
    by (simp add: start_def)
  have h2: "read_message ?s1 = Inr ?s2"
    by (simp add: read_message_def error_response_def)
  have h3: "message ?s2 = Some error_body"
    by simp
  have h4: "py_in ''errors'' error_body = Inr True"
    by (simp add: error_body_def)
  have h5: "(2::nat) < 15"
    by simp
  have h6: "\<forall>k<2. ?env (posts ?s2 + k) = Replied ((\<lambda>k. error_response) k)"
    by simp
  have h7: "?env (posts ?s2 + 2) = Refused"
    by simp
  note inst = refused_repost_is_unhandled [OF h1 h2 h3 h4 h5 h6 h7]
  have a: "run ?env (Some ''type T'') =
     Inl (ConnectionError,
          \<lparr>mutation = ?m, r = Some error_response, message = Some error_body, posts = 18,
           trace = Print ?m # replicate 15 (Post ?m) @
             concat (map (poll_events ?m) [0..<2]) @ [Post ?m]\<rparr>)"
    using conjunct1 [OF inst] by simp
  have b: "filter is_report (actions (run ?env (Some ''type T''))) = []"
    using inst by (rule conjunct2)
  show ?thesis
    using a b by (rule conjI)
qed

end
